theory Spec2Isabelle
  imports Complex_Main
begin

section \<open>Post-processing of amplitude-estimation measurement histograms\<close>

text \<open>
  The notebooks turn the result of a simulated amplitude-estimation circuit into an
  estimate in three steps: the sampled (state, probability) pairs are written into a
  dense array of length \<open>2 ^ m\<close>, the outcomes \<open>i\<close> and \<open>2 ^ m - i\<close> are folded into one
  bin, and the bin of largest probability selects the estimator value
  \<open>sin\<^sup>2 (i * pi / 2 ^ m)\<close>, which \<open>ExpectedFx\<close> maps back to the original quantity.

  A float is modelled by the real number it denotes. The sums of the folding loop and of
  Python's \<open>sum\<close>, and the quotients of the normalisation, are the exact results rounded
  to the nearest double (\<open>f64\<close>). The estimator values are the exact ones: \<open>np.sin\<close> and
  \<open>np.pi\<close> stand for the sine and \<open>pi\<close>, and the rounding to decimals and the affine map
  of \<open>ExpectedFx\<close> are computed without rounding error. Every place where Python raises
  is a branch returning \<open>Inl\<close> of the exception.
\<close>

subsection \<open>Data\<close>

datatype py_error = IndexError | TypeError | ValueError | ZeroDivisionError

text \<open>A sample of a simulation result: \<open>sample.state.int\<close> and \<open>sample.probability\<close>.\<close>

record sample =
  state_int :: nat
  probability :: real

text \<open>Reading \<open>xs[i]\<close> with a non-negative integer index.\<close>

definition getitem :: "real list \<Rightarrow> nat \<Rightarrow> py_error + real" where
  "getitem xs i = (if i < length xs then Inr (xs ! i) else Inl IndexError)"

subsection \<open>Floating-point arithmetic\<close>

text \<open>Rounding to the nearest integer, a tie going to the even one (C's \<open>rint\<close>).\<close>

definition rint :: "real \<Rightarrow> int" where
  "rint x =
     (let f = \<lfloor>x\<rfloor>; d = x - of_int f in
      if d < 1 / 2 then f
      else if 1 / 2 < d then f + 1
      else if even f then f else f + 1)"

text \<open>
  A double has 53 significant bits: \<open>f64 x\<close> is \<open>x\<close> rounded to the nearest multiple of
  \<open>2 ^ (e - 52)\<close>, where \<open>2 ^ e \<le> \<bar>x\<bar> < 2 ^ (e + 1)\<close>, a tie going to the even
  significand. The range of the exponent is left unbounded, so that overflow (beyond
  about \<open>1.8e308\<close>) and rounding in the subnormal range (below \<open>2 ^ -1022\<close>) are not in
  the model. The sum of two doubles is never rounded in the subnormal range, so
  \<open>np_add\<close> is the \<open>+\<close> of two floats wherever that is finite.
\<close>

definition f64 :: "real \<Rightarrow> real" where
  "f64 x =
     (if x = 0 then 0
      else
        (let e = \<lfloor>log 2 \<bar>x\<bar>\<rfloor> - 52
         in of_int (rint (x / 2 powr of_int e)) * 2 powr of_int e))"

definition np_add :: "real \<Rightarrow> real \<Rightarrow> real" where
  "np_add a b = f64 (a + b)"

text \<open>Python's \<open>sum\<close> (of the notebooks' Python 3.6): from 0, adding left to right.\<close>

definition py_sum :: "real list \<Rightarrow> real" where
  "py_sum xs = foldl np_add 0 xs"

subsection \<open>The dense array of probabilities\<close>

text \<open>
  \<^verbatim>\<open>
  all_probs = np.zeros(2**nb_eval_qbits, dtype=float)
  for sample in result:
      state_decimal = sample.state.int
      all_probs[state_decimal] = sample.probability
  \<close>
  A negative exponent makes \<open>2**nb_eval_qbits\<close> a float, which \<open>np.zeros\<close> refuses with
  a TypeError; a state beyond the end of the array is an IndexError.
\<close>

fun fill :: "real list \<Rightarrow> sample list \<Rightarrow> py_error + real list" where
  "fill arr [] = Inr arr"
| "fill arr (sample # result) =
     (let state_decimal = state_int sample in
      if state_decimal < length arr
      then fill (arr[state_decimal := probability sample]) result
      else Inl IndexError)"

definition all_probs :: "int \<Rightarrow> sample list \<Rightarrow> py_error + real list" where
  "all_probs nb_eval_qbits result =
     (if nb_eval_qbits < 0 then Inl TypeError
      else fill (replicate (2 ^ nat nb_eval_qbits) 0) result)"

subsection \<open>The estimator values\<close>

text \<open>
  \<^verbatim>\<open>
  a_tildes = [np.sin(i*np.pi/(2**nb_eval_qbits))**2 for i in range(2**(nb_eval_qbits-1)+1)]
  \<close>
  For \<open>nb_eval_qbits \<le> 0\<close> the bound of \<open>range\<close> is a float and Python raises a
  TypeError.
\<close>

definition a_tildes :: "int \<Rightarrow> py_error + real list" where
  "a_tildes nb_eval_qbits =
     (if nb_eval_qbits \<le> 0 then Inl TypeError
      else Inr (map (\<lambda>i. (sin (real i * pi / 2 ^ nat nb_eval_qbits))\<^sup>2)
                  [0..<2 ^ nat (nb_eval_qbits - 1) + 1]))"

text \<open>
  The T-bill notebook rounds each value to three decimals:
  \<^verbatim>\<open>
  p_tilde = [np.round(np.sin(i*np.pi/(2**m))**2,3) for i in range(2**(m-1)+1)]
  \<close>
  \<open>np.round\<close> scales by the power of ten, rounds to the nearest integer with ties to
  the even one (\<open>rint\<close>), and scales back.
\<close>

definition np_round :: "real \<Rightarrow> nat \<Rightarrow> real" where
  "np_round x decimals = of_int (rint (x * 10 ^ decimals)) / 10 ^ decimals"

definition p_tilde :: "int \<Rightarrow> py_error + real list" where
  "p_tilde m =
     (if m \<le> 0 then Inl TypeError
      else Inr (map (\<lambda>i. np_round ((sin (real i * pi / 2 ^ nat m))\<^sup>2) 3)
                  [0..<2 ^ nat (m - 1) + 1]))"

subsection \<open>Folding the bins\<close>

text \<open>
  \<^verbatim>\<open>
  probs =[]
  probs.append(all_probs[0])
  i = 1
  while i < 2**nb_eval_qbits/2:
      probs.append(all_probs[i] + all_probs[2**nb_eval_qbits-i])
      i += 1
  probs.append(all_probs[2**(nb_eval_qbits-1)])
  \<close>
  The T-bill notebook has the same loop, with \<open>probs\<close> for the dense array and
  \<open>freqs\<close> for the folded one. The \<open>+\<close> is the sum of two floats, \<open>np_add\<close>. For \<open>nb_eval_qbits \<le> 0\<close> the loop is not entered and the
  last index is a float, an IndexError.
\<close>

function probs_loop :: "nat \<Rightarrow> real list \<Rightarrow> nat \<Rightarrow> real list \<Rightarrow> py_error + real list" where
  "probs_loop n arr i acc =
     (if real i < 2 ^ n / 2
      then (case getitem arr i of
              Inl e \<Rightarrow> Inl e
            | Inr a \<Rightarrow>
               (case getitem arr (2 ^ n - i) of
                  Inl e \<Rightarrow> Inl e
                | Inr b \<Rightarrow> probs_loop n arr (i + 1) (acc @ [np_add a b])))
      else Inr acc)"
  by pat_completeness auto
termination
proof (relation "measure (\<lambda>(n, arr, i, acc). 2 ^ n - 2 * i)")
  show "wf (measure (\<lambda>(n, arr, i, acc). 2 ^ n - 2 * i))"
    by simp
next
  fix n :: nat and arr acc :: "real list" and i :: nat and a b :: real
  assume "real i < 2 ^ n / 2"
  then have "real (2 * i) < real (2 ^ n)"
    by simp
  then have "2 * i < (2::nat) ^ n"
    by (simp only: of_nat_less_iff)
  then show "((n, arr, i + 1, acc @ [np_add a b]), (n, arr, i, acc))
      \<in> measure (\<lambda>(n, arr, i, acc). 2 ^ n - 2 * i)"
    by simp
qed

definition probs :: "int \<Rightarrow> real list \<Rightarrow> py_error + real list" where
  "probs nb_eval_qbits arr =
     (case getitem arr 0 of
        Inl e \<Rightarrow> Inl e
      | Inr first \<Rightarrow>
         if nb_eval_qbits \<le> 0 then Inl IndexError
         else
           (case probs_loop (nat nb_eval_qbits) arr 1 [first] of
              Inl e \<Rightarrow> Inl e
            | Inr acc \<Rightarrow>
               (case getitem arr (2 ^ nat (nb_eval_qbits - 1)) of
                  Inl e \<Rightarrow> Inl e
                | Inr mid \<Rightarrow> Inr (acc @ [mid]))))"

subsection \<open>The point estimate\<close>

text \<open>
  \<open>np.argmax\<close> is numpy's: it scans the sequence once and keeps the index of the first
  entry that is larger than all entries before it, so that among several occurrences of
  the maximum the first is returned; an empty sequence is a ValueError.
\<close>

fun argmax_loop :: "real list \<Rightarrow> nat \<Rightarrow> nat \<Rightarrow> real \<Rightarrow> nat" where
  "argmax_loop [] i best mx = best"
| "argmax_loop (x # xs) i best mx =
     (if mx < x then argmax_loop xs (i + 1) i x else argmax_loop xs (i + 1) best mx)"

definition np_argmax :: "real list \<Rightarrow> py_error + nat" where
  "np_argmax xs = (case xs of [] \<Rightarrow> Inl ValueError | x # rest \<Rightarrow> Inr (argmax_loop rest 1 0 x))"

text \<open>
  \<^verbatim>\<open>
  lucky_a_tilde = a_tildes[np.argmax(probs)]
  \<close>
  in the order of the cell: dense array, estimator values, folded bins, arg-max.
\<close>

definition select :: "real list \<Rightarrow> real list \<Rightarrow> py_error + real" where
  "select vals bins =
     (case np_argmax bins of Inl e \<Rightarrow> Inl e | Inr k \<Rightarrow> getitem vals k)"

definition lucky_a_tilde :: "int \<Rightarrow> sample list \<Rightarrow> py_error + real" where
  "lucky_a_tilde nb_eval_qbits result =
     (case all_probs nb_eval_qbits result of
        Inl e \<Rightarrow> Inl e
      | Inr arr \<Rightarrow>
         (case a_tildes nb_eval_qbits of
            Inl e \<Rightarrow> Inl e
          | Inr vals \<Rightarrow>
             (case probs nb_eval_qbits arr of
                Inl e \<Rightarrow> Inl e
              | Inr bins \<Rightarrow> select vals bins)))"

text \<open>
  \<^verbatim>\<open>
  max_freq = p_tilde[np.argmax(freqs)]
  \<close>
\<close>

definition max_freq :: "int \<Rightarrow> sample list \<Rightarrow> py_error + real" where
  "max_freq m result =
     (case all_probs m result of
        Inl e \<Rightarrow> Inl e
      | Inr arr \<Rightarrow>
         (case p_tilde m of
            Inl e \<Rightarrow> Inl e
          | Inr vals \<Rightarrow>
             (case probs m arr of
                Inl e \<Rightarrow> Inl e
              | Inr bins \<Rightarrow> select vals bins)))"

subsection \<open>Mapping the estimate back\<close>

text \<open>
  \<^verbatim>\<open>
  def ExpectedFx(a):
      scaled_value = (a-1/2)/c + 1/2
      value = scaled_value*(f_max-f_min) + f_min
      return value
  \<close>
  (the function of the housing-price notebook). \<open>c\<close>, \<open>f_min\<close> and \<open>f_max\<close> are
  globals of the notebook; here they are parameters. The argument is a numpy float, so
  nothing is raised for \<open>c = 0\<close> (the float \<open>0.0\<close>): the quotient is an infinity with
  the sign of \<open>a - 1/2\<close>, or NaN for \<open>0.0 / 0.0\<close>, and it stays one through the sum
  and the product, which turns an infinity into NaN for the factor 0 and changes its
  sign for a negative factor.
\<close>

datatype np_float = Finite real | PosInf | NegInf | NaN

definition ExpectedFx :: "real \<Rightarrow> real \<Rightarrow> real \<Rightarrow> real \<Rightarrow> np_float" where
  "ExpectedFx c f_min f_max a =
     (if c = 0
      then (if a - 1 / 2 = 0 \<or> f_max - f_min = 0 then NaN
            else if (0 < a - 1 / 2) = (0 < f_max - f_min) then PosInf else NegInf)
      else
        (let scaled_value = (a - 1 / 2) / c + 1 / 2;
             value = scaled_value * (f_max - f_min) + f_min
         in Finite value))"

subsection \<open>Normalising the probabilities of a noisy run\<close>

text \<open>
  \<^verbatim>\<open>
  prob_sum = sum([sample.probability for sample in result]) ## normalize probabilities
  noisy_probabilities = [sample.probability/prob_sum for sample in result]
  \<close>
  The probabilities are taken to be Python floats. With an empty result nothing is divided;
  otherwise a zero \<open>prob_sum\<close> is a ZeroDivisionError at the first sample.
\<close>

definition prob_sum :: "sample list \<Rightarrow> real" where
  "prob_sum result = py_sum (map probability result)"

definition noisy_probabilities :: "sample list \<Rightarrow> py_error + real list" where
  "noisy_probabilities result =
     (if result \<noteq> [] \<and> prob_sum result = 0 then Inl ZeroDivisionError
      else Inr (map (\<lambda>sample. f64 (probability sample / prob_sum result)) result))"

section \<open>Rounding\<close>

lemma rint_of_int: "rint (of_int z) = z"
  by (simp add: rint_def)

lemma rint_error: "\<bar>of_int (rint y) - y\<bar> \<le> 1 / 2"
proof -
  have "of_int \<lfloor>y\<rfloor> \<le> y" "y < of_int \<lfloor>y\<rfloor> + 1"
    by linarith+
  then show ?thesis
    unfolding rint_def Let_def by (simp split: if_splits)
qed

lemma rint_floor: "\<lfloor>x\<rfloor> \<le> rint x \<and> rint x \<le> \<lfloor>x\<rfloor> + 1"
  by (simp add: rint_def Let_def)

lemma rint_same_floor:
  assumes "x \<le> y" "\<lfloor>x\<rfloor> = \<lfloor>y\<rfloor>"
  shows "rint x \<le> rint y"
proof -
  have "x - of_int \<lfloor>y\<rfloor> \<le> y - of_int \<lfloor>y\<rfloor>"
    using assms(1) by simp
  then show ?thesis
    unfolding rint_def Let_def assms(2) by (simp split: if_splits)
qed

lemma rint_mono:
  assumes "x \<le> y"
  shows "rint x \<le> rint y"
proof (cases "\<lfloor>x\<rfloor> = \<lfloor>y\<rfloor>")
  case True
  with assms show ?thesis
    by (rule rint_same_floor)
next
  case False
  then have "\<lfloor>x\<rfloor> + 1 \<le> \<lfloor>y\<rfloor>"
    using floor_mono[OF assms] by linarith
  moreover have "rint x \<le> \<lfloor>x\<rfloor> + 1" "\<lfloor>y\<rfloor> \<le> rint y"
    using rint_floor by blast+
  ultimately show ?thesis
    by linarith
qed


lemma f64_0: "f64 0 = 0"
  by (simp add: f64_def)

text \<open>The relative error of rounding to a double is at most \<open>2 ^ -53\<close>.\<close>

lemma f64_error: "\<bar>f64 x - x\<bar> \<le> \<bar>x\<bar> / 2 ^ 53"
proof (cases "x = 0")
  case True
  then show ?thesis
    by (simp add: f64_def)
next
  case False
  define L where "L = \<lfloor>log 2 \<bar>x\<bar>\<rfloor>"
  define s :: real where "s = 2 powr of_int (L - 52)"
  have pos: "0 < \<bar>x\<bar>"
    using False by simp
  have s: "0 < s"
    by (simp add: s_def)
  have low: "2 powr of_int L \<le> \<bar>x\<bar>"
    using floor_log_eq_powr_iff[of "\<bar>x\<bar>" 2 L] pos by (simp add: L_def)
  have "2 powr of_int L = s * 2 ^ 52"
    by (simp add: s_def powr_diff)
  then have sx: "s / 2 \<le> \<bar>x\<bar> / 2 ^ 53"
    using low by simp
  have f: "f64 x = of_int (rint (x / s)) * s"
    using False by (simp add: f64_def L_def s_def)
  have "f64 x - x = (of_int (rint (x / s)) - x / s) * s"
    using s by (simp add: f field_simps)
  then have "\<bar>f64 x - x\<bar> = \<bar>of_int (rint (x / s)) - x / s\<bar> * s"
    using s by (simp add: abs_mult)
  also have "\<dots> \<le> 1 / 2 * s"
    using rint_error[of "x / s"] s by (intro mult_right_mono) simp_all
  also have "\<dots> \<le> \<bar>x\<bar> / 2 ^ 53"
    using sx by simp
  finally show ?thesis .
qed

text \<open>Rounding evaluated: below 1, and at numbers that are doubles already.\<close>

lemma two_powr_neg: "(2::real) powr (- real n) = 1 / 2 ^ n"
  by (simp add: powr_minus powr_realpow inverse_eq_divide)

lemma two_powr_neg_int: "(2::real) powr of_int (- int n) = 1 / 2 ^ n"
  using two_powr_neg[of n] by simp

lemma f64_scaled:
  assumes "x \<noteq> 0" "2 powr of_int L \<le> \<bar>x\<bar>" "\<bar>x\<bar> < 2 powr of_int (L + 1)"
  shows "f64 x = of_int (rint (x / 2 powr of_int (L - 52))) * 2 powr of_int (L - 52)"
proof -
  have "\<lfloor>log 2 \<bar>x\<bar>\<rfloor> = L"
    using floor_log_eq_powr_iff[of "\<bar>x\<bar>" 2 L] assms by simp
  then show ?thesis
    using assms(1) by (simp add: f64_def)
qed

lemma f64_below_one:
  assumes "1 / 2 ^ (n + 1) \<le> \<bar>x\<bar>" "\<bar>x\<bar> < 1 / 2 ^ n"
  shows "f64 x = of_int (rint (x * 2 ^ (n + 53))) / 2 ^ (n + 53)"
proof -
  have "(0::real) < 1 / 2 ^ (n + 1)"
    by simp
  then have nz: "x \<noteq> 0"
    using assms(1) by linarith
  have a: "2 powr of_int (- int (n + 1)) = (1::real) / 2 ^ (n + 1)"
    by (rule two_powr_neg_int)
  have "- int (n + 1) + 1 = - int n" "- int (n + 1) - 52 = - int (n + 53)"
    by simp_all
  then have b: "2 powr of_int (- int (n + 1) + 1) = (1::real) / 2 ^ n"
    and c: "2 powr of_int (- int (n + 1) - 52) = (1::real) / 2 ^ (n + 53)"
    by (simp_all only: two_powr_neg_int)
  have "f64 x = of_int (rint (x / 2 powr of_int (- int (n + 1) - 52))) * 2 powr of_int (- int (n + 1) - 52)"
  proof (rule f64_scaled)
    show "x \<noteq> 0"
      by (rule nz)
    show "2 powr of_int (- int (n + 1)) \<le> \<bar>x\<bar>"
      unfolding a by (rule assms(1))
    show "\<bar>x\<bar> < 2 powr of_int (- int (n + 1) + 1)"
      unfolding b by (rule assms(2))
  qed
  then show ?thesis
    by (simp only: c) simp
qed

lemma f64_dyadic:
  assumes "\<bar>k\<bar> < 2 ^ 53"
  shows "f64 (of_int k / 2 ^ n) = of_int k / 2 ^ n"
proof (cases "k = 0")
  case True
  then show ?thesis
    by (simp add: f64_0)
next
  case False
  define x :: real where "x = of_int k / 2 ^ n"
  define L where "L = \<lfloor>log 2 \<bar>x\<bar>\<rfloor>"
  have nz: "x \<noteq> 0"
    using False by (simp add: x_def)
  have "\<bar>x\<bar> = of_int \<bar>k\<bar> / 2 ^ n"
    by (simp add: x_def abs_divide)
  also have "\<dots> < of_int (2 ^ 53) / 2 ^ n"
    using assms by (intro divide_strict_right_mono) (simp_all only: of_int_less_iff zero_less_power zero_less_numeral)
  also have "\<dots> = 2 powr of_int (53 - int n)"
  proof -
    have "(2::real) powr of_int (53 - int n) = 2 powr (53 - real n)"
      by simp
    also have "\<dots> = 2 powr 53 / 2 powr real n"
      by (rule powr_diff)
    also have "\<dots> = 2 ^ 53 / 2 ^ n"
      by (simp add: powr_realpow)
    finally show ?thesis
      by simp
  qed
  finally have up: "\<bar>x\<bar> < 2 powr of_int (53 - int n)" .
  have "2 powr of_int L \<le> \<bar>x\<bar>"
    using floor_log_eq_powr_iff[of "\<bar>x\<bar>" 2 L] nz by (simp add: L_def)
  with up have "2 powr of_int L < (2::real) powr of_int (53 - int n)"
    by linarith
  then have "L < 53 - int n"
    by simp
  then have "0 \<le> - int n - (L - 52)"
    by linarith
  then obtain j :: nat where j: "int j = - int n - (L - 52)"
    using nonneg_int_cases by metis
  have s: "2 powr of_int (L - 52) = (1::real) / 2 ^ n / 2 ^ j"
  proof -
    have "L - 52 = - int n - int j"
      using j by simp
    then have "2 powr of_int (L - 52) = (2::real) powr (- real n - real j)"
      by simp
    also have "\<dots> = 2 powr (- real n) / 2 powr real j"
      by (simp add: powr_diff)
    finally show ?thesis
      by (simp add: two_powr_neg powr_realpow)
  qed
  have "x / 2 powr of_int (L - 52) = of_int (k * 2 ^ j)"
    unfolding s x_def by simp
  then have "rint (x / 2 powr of_int (L - 52)) = k * 2 ^ j"
    by (simp only: rint_of_int)
  then have "f64 x = of_int (k * 2 ^ j) * 2 powr of_int (L - 52)"
    using nz by (simp add: f64_def L_def)
  then show ?thesis
    unfolding s x_def by simp
qed

lemma f64_examples:
  "f64 1 = 1" "f64 (1 / 2) = 1 / 2" "f64 (1 / 4) = 1 / 4" "f64 (1 / 8) = 1 / 8"
  "f64 (3 / 8) = 3 / 8" "f64 (3 / 4) = 3 / 4"
  using f64_dyadic[of 1 0] f64_dyadic[of 1 1] f64_dyadic[of 1 2] f64_dyadic[of 1 3]
    f64_dyadic[of 3 3] f64_dyadic[of 3 2]
  by simp_all

section \<open>The folding loop\<close>

declare probs_loop.simps [simp del]

lemma loop_guard: "0 < n \<Longrightarrow> (real i < 2 ^ n / 2) = (i < 2 ^ (n - 1))"
proof -
  assume "0 < n"
  then obtain k where n: "n = Suc k"
    by (cases n) auto
  have "(real i < 2 ^ n / 2) = (real i < real (2 ^ k))"
    by (simp add: n)
  also have "\<dots> = (i < 2 ^ k)"
    by (simp only: of_nat_less_iff)
  finally show ?thesis
    by (simp add: n)
qed

text \<open>The loop started at \<open>i\<close> appends the pairs \<open>i, \<dots>, 2 ^ (n - 1) - 1\<close> and stops.\<close>

lemma probs_loop_closed:
  "0 < n \<Longrightarrow> length arr = 2 ^ n \<Longrightarrow> 1 \<le> i \<Longrightarrow> i \<le> 2 ^ (n - 1) \<Longrightarrow>
   probs_loop n arr i acc =
     Inr (acc @ map (\<lambda>k. np_add (arr ! k) (arr ! (2 ^ n - k))) [i..<2 ^ (n - 1)])"
proof (induction n arr i acc rule: probs_loop.induct)
  case (1 n arr i acc)
  show ?case
  proof (cases "i < 2 ^ (n - 1)")
    case True
    have pow: "(2::nat) ^ (n - 1) < 2 ^ n"
      using \<open>0 < n\<close> by simp
    have g: "real i < 2 ^ n / 2"
      using True loop_guard[OF \<open>0 < n\<close>, of i] by blast
    have lt: "i < 2 ^ n"
      using True pow by (rule less_trans)
    have a: "getitem arr i = Inr (arr ! i)"
      using lt "1.prems" by (simp add: getitem_def)
    have b: "getitem arr (2 ^ n - i) = Inr (arr ! (2 ^ n - i))"
      using "1.prems" by (simp add: getitem_def)
    have "probs_loop n arr (i + 1) (acc @ [np_add (arr ! i) (arr ! (2 ^ n - i))]) =
          Inr ((acc @ [np_add (arr ! i) (arr ! (2 ^ n - i))]) @
               map (\<lambda>k. np_add (arr ! k) (arr ! (2 ^ n - k))) [i + 1..<2 ^ (n - 1)])"
      using "1.IH"[OF g a b] "1.prems" True by simp
    moreover have "[i..<2 ^ (n - 1)] = i # [i + 1..<2 ^ (n - 1)]"
      using True by (simp add: upt_conv_Cons)
    ultimately show ?thesis
      using g a b by (subst probs_loop.simps) simp
  next
    case False
    then have "\<not> real i < 2 ^ n / 2"
      using loop_guard[OF \<open>0 < n\<close>, of i] by blast
    moreover have "[i..<2 ^ (n - 1)] = []"
      using False by simp
    ultimately show ?thesis
      by (subst probs_loop.simps) simp
  qed
qed

lemma probs_closed:
  assumes "1 \<le> m" "length arr = 2 ^ nat m"
  shows "probs m arr =
    Inr (arr ! 0 #
         map (\<lambda>k. np_add (arr ! k) (arr ! (2 ^ nat m - k))) [1..<2 ^ (nat m - 1)] @
         [arr ! (2 ^ (nat m - 1))])"
proof -
  have n: "0 < nat m"
    using assms by simp
  have e: "nat (m - 1) = nat m - 1"
    using assms by simp
  have pow: "(2::nat) ^ (nat m - 1) < 2 ^ nat m"
    using n by simp
  have z: "getitem arr 0 = Inr (arr ! 0)"
    using assms by (simp add: getitem_def)
  have l: "getitem arr (2 ^ (nat m - 1)) = Inr (arr ! (2 ^ (nat m - 1)))"
    using assms pow by (simp add: getitem_def)
  have "probs_loop (nat m) arr 1 [arr ! 0] =
        Inr ([arr ! 0] @
             map (\<lambda>k. np_add (arr ! k) (arr ! (2 ^ nat m - k))) [1..<2 ^ (nat m - 1)])"
    using probs_loop_closed[OF n assms(2), of 1 "[arr ! 0]"] by simp
  then show ?thesis
    using assms(1) z l by (simp add: probs_def e)
qed

text \<open>Pairing \<open>k\<close> with \<open>2 * h - k\<close> covers every index below \<open>2 * h\<close> once.\<close>

lemma folded_sum:
  fixes f :: "nat \<Rightarrow> real"
  assumes "0 < h"
  shows "f 0 + (\<Sum>k = 1..<h. f k + f (2 * h - k)) + f h = (\<Sum>k = 0..<2 * h. f k)"
proof -
  have mirror: "(\<Sum>k = 1..<h. f (2 * h - k)) = (\<Sum>j = h + 1..<2 * h. f j)"
    by (rule sum.reindex_bij_witness[where i = "\<lambda>j. 2 * h - j" and j = "\<lambda>k. 2 * h - k"]) auto
  have "(\<Sum>k = 0..<2 * h. f k) = (\<Sum>k = 0..<h. f k) + (\<Sum>k = h..<2 * h. f k)"
    by (rule sum.atLeastLessThan_concat[symmetric]) simp_all
  also have "(\<Sum>k = 0..<h. f k) = f 0 + (\<Sum>k = 1..<h. f k)"
    using assms by (simp add: sum.atLeast_Suc_lessThan)
  also have "(\<Sum>k = h..<2 * h. f k) = f h + (\<Sum>k = h + 1..<2 * h. f k)"
    using assms by (simp add: sum.atLeast_Suc_lessThan)
  finally show ?thesis
    using mirror by (simp add: sum.distrib)
qed

text \<open>
  The bins and the dense array differ in their sums by the rounding of the paired bins.
\<close>

lemma sum_list_probs:
  assumes "1 \<le> m" "length arr = 2 ^ nat m" "probs m arr = Inr bins"
  shows "\<bar>sum_list bins - sum_list arr\<bar>
    \<le> (\<Sum>k = 1..<2 ^ (nat m - 1). \<bar>arr ! k + arr ! (2 ^ nat m - k)\<bar>) / 2 ^ 53"
proof -
  define h :: nat where "h = 2 ^ (nat m - 1)"
  define p where "p = (\<lambda>k. arr ! k + arr ! (2 * h - k))"
  have h: "0 < h"
    by (simp add: h_def)
  have N: "(2::nat) ^ nat m = 2 * h"
    using assms(1) by (simp add: h_def flip: power_Suc)
  have "bins = arr ! 0 # map (\<lambda>k. f64 (p k)) [1..<h] @ [arr ! h]"
    using probs_closed[OF assms(1,2)] assms(3)
    by (simp add: h_def N[unfolded h_def] p_def np_add_def)
  then have b: "sum_list bins = arr ! 0 + (\<Sum>k = 1..<h. f64 (p k)) + arr ! h"
    by (simp add: interv_sum_list_conv_sum_set_nat)
  have "sum_list arr = (\<Sum>k = 0..<2 * h. arr ! k)"
    using assms(2) by (simp add: sum_list_sum_nth N)
  also have "\<dots> = arr ! 0 + (\<Sum>k = 1..<h. p k) + arr ! h"
    unfolding p_def using h by (rule folded_sum[symmetric])
  finally have "sum_list bins - sum_list arr = (\<Sum>k = 1..<h. f64 (p k) - p k)"
    using b by (simp add: sum_subtractf)
  also have "\<bar>\<dots>\<bar> \<le> (\<Sum>k = 1..<h. \<bar>f64 (p k) - p k\<bar>)"
    by (rule sum_abs)
  also have "\<dots> \<le> (\<Sum>k = 1..<h. \<bar>p k\<bar> / 2 ^ 53)"
    by (intro sum_mono f64_error)
  also have "\<dots> = (\<Sum>k = 1..<h. \<bar>p k\<bar>) / 2 ^ 53"
    by (simp add: sum_divide_distrib)
  finally show ?thesis
    by (simp add: p_def h_def N[unfolded h_def])
qed

text \<open>For entries that are not negative the paired bins hold no more than the whole array.\<close>

lemma paired_mass:
  fixes arr :: "real list"
  assumes "1 \<le> m" "length arr = 2 ^ nat m" "\<forall>x\<in>set arr. 0 \<le> x"
  shows "(\<Sum>k = 1..<2 ^ (nat m - 1). \<bar>arr ! k + arr ! (2 ^ nat m - k)\<bar>) \<le> sum_list arr"
proof -
  define h :: nat where "h = 2 ^ (nat m - 1)"
  have h: "0 < h"
    by (simp add: h_def)
  have N: "(2::nat) ^ nat m = 2 * h"
    using assms(1) by (simp add: h_def flip: power_Suc)
  have nn: "0 \<le> arr ! k" if "k < 2 * h" for k
    using that assms(2,3) by (simp add: N)
  have "(\<Sum>k = 1..<h. \<bar>arr ! k + arr ! (2 * h - k)\<bar>) = (\<Sum>k = 1..<h. arr ! k + arr ! (2 * h - k))"
  proof (rule sum.cong)
    fix k assume "k \<in> {1..<h}"
    then have "0 \<le> arr ! k" "0 \<le> arr ! (2 * h - k)"
      by (simp_all add: nn)
    then show "\<bar>arr ! k + arr ! (2 * h - k)\<bar> = arr ! k + arr ! (2 * h - k)"
      by simp
  qed simp
  also have "\<dots> \<le> arr ! 0 + (\<Sum>k = 1..<h. arr ! k + arr ! (2 * h - k)) + arr ! h"
    using nn[of 0] nn[of h] h by simp
  also have "\<dots> = (\<Sum>k = 0..<2 * h. arr ! k)"
    using h by (rule folded_sum)
  also have "\<dots> = sum_list arr"
    using assms(2) by (simp add: sum_list_sum_nth N)
  finally show ?thesis
    by (simp add: h_def N[unfolded h_def])
qed

section \<open>The estimator values\<close>

text \<open>On \<open>[0, pi / 2]\<close> the sine is non-negative and strictly increasing, and so is its square.\<close>

lemma sin_sq_strict_mono:
  assumes "0 \<le> x" "x < y" "y \<le> pi / 2"
  shows "(sin x)\<^sup>2 < (sin y)\<^sup>2"
proof -
  have "sin x < sin y"
    using assms by (intro sin_monotone_2pi) auto
  moreover have "0 \<le> sin x"
    using assms pi_gt_zero by (intro sin_ge_zero) linarith+
  ultimately show ?thesis
    by (simp add: power_strict_mono)
qed

lemma angle_bounds:
  assumes "0 < n" "k \<le> 2 ^ (n - 1)"
  shows "0 \<le> real k * pi / 2 ^ n \<and> real k * pi / 2 ^ n \<le> pi / 2"
proof -
  obtain j where n: "n = Suc j"
    using assms(1) by (cases n) auto
  have "real k \<le> real (2 ^ j)"
    using assms(2) unfolding n by (simp only: of_nat_le_iff diff_Suc_1)
  then have k: "real k / 2 ^ j \<le> 1"
    by simp
  have "real k * pi / 2 ^ n = (real k / 2 ^ j) * (pi / 2)"
    by (simp add: n)
  also have "\<dots> \<le> 1 * (pi / 2)"
    using k by (rule mult_right_mono) simp
  finally have "real k * pi / 2 ^ n \<le> pi / 2"
    by simp
  moreover have "0 \<le> real k * pi / 2 ^ n"
    by simp
  ultimately show ?thesis
    by simp
qed

lemma angle_strict:
  assumes "j < k"
  shows "real j * pi / 2 ^ n < real k * pi / 2 ^ n"
proof -
  have "real j * pi < real k * pi"
    using assms by simp
  then show ?thesis
    by (rule divide_strict_right_mono) simp
qed

lemma estimator_strict_mono:
  assumes "0 < n" "j < k" "k \<le> 2 ^ (n - 1)"
  shows "(sin (real j * pi / 2 ^ n))\<^sup>2 < (sin (real k * pi / 2 ^ n))\<^sup>2"
proof (rule sin_sq_strict_mono)
  show "0 \<le> real j * pi / 2 ^ n"
    by simp
  show "real j * pi / 2 ^ n < real k * pi / 2 ^ n"
    using assms(2) by (rule angle_strict)
  show "real k * pi / 2 ^ n \<le> pi / 2"
    using angle_bounds[OF assms(1,3)] by blast
qed

lemma estimator_range: "0 \<le> (sin (x::real))\<^sup>2 \<and> (sin x)\<^sup>2 \<le> 1"
proof -
  have "(sin x)\<^sup>2 + (cos x)\<^sup>2 = 1"
    by simp
  moreover have "0 \<le> (cos x)\<^sup>2" "0 \<le> (sin x)\<^sup>2"
    by simp_all
  ultimately show ?thesis
    by linarith
qed

text \<open>Rounding to decimals is monotone and leaves integers alone.\<close>

lemma np_round_mono:
  assumes "x \<le> y"
  shows "np_round x d \<le> np_round y d"
proof -
  have "x * 10 ^ d \<le> y * 10 ^ d"
    using assms by (rule mult_right_mono) simp
  then have "rint (x * 10 ^ d) \<le> rint (y * 10 ^ d)"
    by (rule rint_mono)
  then have "(of_int (rint (x * 10 ^ d)) :: real) \<le> of_int (rint (y * 10 ^ d))"
    by (simp only: of_int_le_iff)
  then show ?thesis
    unfolding np_round_def by (rule divide_right_mono) simp
qed

lemma np_round_of_int: "np_round (of_int z) d = of_int z"
proof -
  have "(of_int z :: real) * 10 ^ d = of_int (z * 10 ^ d)"
    by simp
  then have "rint (of_int z * 10 ^ d) = z * 10 ^ d"
    by (simp only: rint_of_int)
  then show ?thesis
    by (simp add: np_round_def)
qed

lemma np_round_range:
  assumes "0 \<le> x" "x \<le> 1"
  shows "0 \<le> np_round x d \<and> np_round x d \<le> 1"
  using np_round_mono[OF assms(1), of d] np_round_mono[OF assms(2), of d]
    np_round_of_int[of 0 d] np_round_of_int[of 1 d]
  by simp

lemma np_round_examples: "np_round 0 3 = 0" "np_round (1 / 2) 3 = 1 / 2" "np_round 1 3 = 1"
  by (simp_all add: np_round_def rint_def)

text \<open>The two lists of estimator values, for \<open>m \<ge> 1\<close>.\<close>

lemma a_tildes_closed:
  assumes "1 \<le> m"
  shows "a_tildes m = Inr (map (\<lambda>i. (sin (real i * pi / 2 ^ nat m))\<^sup>2) [0..<2 ^ (nat m - 1) + 1])"
  using assms by (simp add: a_tildes_def nat_diff_distrib)

lemma p_tilde_closed:
  assumes "1 \<le> m"
  shows "p_tilde m = Inr (map (\<lambda>i. np_round ((sin (real i * pi / 2 ^ nat m))\<^sup>2) 3) [0..<2 ^ (nat m - 1) + 1])"
  using assms by (simp add: p_tilde_def nat_diff_distrib)

lemma nth_map_upt0:
  assumes "k \<le> h"
  shows "map f [0..<h + 1] ! k = f k"
proof -
  have "k < length [0..<h + 1]"
    using assms by (simp del: upt_Suc)
  then have "map f [0..<h + 1] ! k = f ([0..<h + 1] ! k)"
    by (rule nth_map)
  also have "[0..<h + 1] ! k = k"
    using assms by (simp del: upt_Suc)
  finally show ?thesis .
qed

lemma a_tildes_length:
  assumes "1 \<le> m" "a_tildes m = Inr vals"
  shows "length vals = 2 ^ nat (m - 1) + 1"
  using assms by (auto simp: a_tildes_def)

lemma p_tilde_length:
  assumes "1 \<le> m" "p_tilde m = Inr vals"
  shows "length vals = 2 ^ nat (m - 1) + 1"
  using assms by (auto simp: p_tilde_def)

lemma a_tildes_strict:
  assumes "1 \<le> m" "a_tildes m = Inr vals" "j < k" "k \<le> 2 ^ nat (m - 1)"
  shows "vals ! j < vals ! k"
proof -
  define h :: nat where "h = 2 ^ (nat m - 1)"
  define f where "f = (\<lambda>i. (sin (real i * pi / 2 ^ nat m))\<^sup>2)"
  have n: "0 < nat m"
    using assms(1) by simp
  have kh: "k \<le> h" and jh: "j \<le> h"
    using assms(1,3,4) by (simp_all add: h_def nat_diff_distrib)
  have "vals = map f [0..<h + 1]"
    using a_tildes_closed[OF assms(1)] assms(2) by (simp add: f_def h_def)
  moreover have "f j < f k"
    unfolding f_def using n assms(3) kh[unfolded h_def] by (rule estimator_strict_mono)
  ultimately show ?thesis
    using kh jh by (simp only: nth_map_upt0)
qed

lemma p_tilde_mono:
  assumes "1 \<le> m" "p_tilde m = Inr rounded" "j < k" "k \<le> 2 ^ nat (m - 1)"
  shows "rounded ! j \<le> rounded ! k"
proof -
  define h :: nat where "h = 2 ^ (nat m - 1)"
  define f where "f = (\<lambda>i. (sin (real i * pi / 2 ^ nat m))\<^sup>2)"
  define g where "g = (\<lambda>i. np_round (f i) 3)"
  have n: "0 < nat m"
    using assms(1) by simp
  have kh: "k \<le> h" and jh: "j \<le> h"
    using assms(1,3,4) by (simp_all add: h_def nat_diff_distrib)
  have "rounded = map g [0..<h + 1]"
    using p_tilde_closed[OF assms(1)] assms(2) by (simp add: g_def f_def h_def)
  moreover have "f j < f k"
    unfolding f_def using n assms(3) kh[unfolded h_def] by (rule estimator_strict_mono)
  then have "g j \<le> g k"
    unfolding g_def by (intro np_round_mono) simp
  ultimately show ?thesis
    using kh jh by (simp only: nth_map_upt0)
qed

lemma a_tildes_range:
  assumes "1 \<le> m" "a_tildes m = Inr vals" "k \<le> 2 ^ nat (m - 1)"
  shows "0 \<le> vals ! k \<and> vals ! k \<le> 1"
proof -
  define h :: nat where "h = 2 ^ (nat m - 1)"
  define f where "f = (\<lambda>i. (sin (real i * pi / 2 ^ nat m))\<^sup>2)"
  have kh: "k \<le> h"
    using assms(1,3) by (simp add: h_def nat_diff_distrib)
  have "vals = map f [0..<h + 1]"
    using a_tildes_closed[OF assms(1)] assms(2) by (simp add: f_def h_def)
  moreover have "0 \<le> f k \<and> f k \<le> 1"
    unfolding f_def by (rule estimator_range)
  ultimately show ?thesis
    using kh by (simp only: nth_map_upt0)
qed

lemma p_tilde_range:
  assumes "1 \<le> m" "p_tilde m = Inr rounded" "k \<le> 2 ^ nat (m - 1)"
  shows "0 \<le> rounded ! k \<and> rounded ! k \<le> 1"
proof -
  define h :: nat where "h = 2 ^ (nat m - 1)"
  define f where "f = (\<lambda>i. (sin (real i * pi / 2 ^ nat m))\<^sup>2)"
  define g where "g = (\<lambda>i. np_round (f i) 3)"
  have kh: "k \<le> h"
    using assms(1,3) by (simp add: h_def nat_diff_distrib)
  have "rounded = map g [0..<h + 1]"
    using p_tilde_closed[OF assms(1)] assms(2) by (simp add: g_def f_def h_def)
  moreover have "0 \<le> f k \<and> f k \<le> 1"
    unfolding f_def by (rule estimator_range)
  then have "0 \<le> g k \<and> g k \<le> 1"
    unfolding g_def by (intro np_round_range) simp_all
  ultimately show ?thesis
    using kh by (simp only: nth_map_upt0)
qed



lemma a_tildes_1: "a_tildes 1 = Inr [0, 1]"
proof -
  have "[0..<2] = [0, 1]"
    by (simp add: upt_rec)
  then show ?thesis
    by (simp add: a_tildes_def)
qed

lemma p_tilde_1: "p_tilde 1 = Inr [0, 1]"
proof -
  have "[0..<2] = [0, 1]"
    by (simp add: upt_rec)
  then show ?thesis
    by (simp add: p_tilde_def np_round_examples)
qed

lemma sin_quarter: "(sin (pi / 4))\<^sup>2 = 1 / 2" "(sin (2 * pi / 4))\<^sup>2 = 1"
  by (simp_all add: sin_45 power_divide)

lemma a_tildes_2: "a_tildes 2 = Inr [0, 1 / 2, 1]"
proof -
  have "[0..<3] = [0, 1, 2]"
    by (simp add: upt_rec)
  then show ?thesis
    by (simp add: a_tildes_def sin_quarter)
qed

lemma p_tilde_2: "p_tilde 2 = Inr [0, 1 / 2, 1]"
proof -
  have "[0..<3] = [0, 1, 2]"
    by (simp add: upt_rec)
  then show ?thesis
    by (simp add: p_tilde_def sin_quarter np_round_examples)
qed

section \<open>The arg-max\<close>

text \<open>
  The invariant of the scan: \<open>pre\<close> is the part already seen, \<open>best\<close> the first index
  of its maximum \<open>mx\<close>.
\<close>

lemma argmax_loop_first:
  assumes "length pre = i" "best < i" "pre ! best = mx"
    and "\<forall>j<i. pre ! j \<le> mx" "\<forall>j<best. pre ! j < mx"
  shows "argmax_loop xs i best mx < length (pre @ xs) \<and>
    (\<forall>j<length (pre @ xs). (pre @ xs) ! j \<le> (pre @ xs) ! argmax_loop xs i best mx) \<and>
    (\<forall>j<argmax_loop xs i best mx. (pre @ xs) ! j < (pre @ xs) ! argmax_loop xs i best mx)"
  using assms
proof (induction xs arbitrary: pre i best mx)
  case Nil
  then show ?case
    by simp
next
  case (Cons x xs)
  have app: "(pre @ [x]) @ xs = pre @ x # xs"
    by simp
  have old: "(pre @ [x]) ! j = pre ! j" if "j < i" for j
    using that Cons.prems(1) by (simp add: nth_append)
  have new: "(pre @ [x]) ! i = x"
    using Cons.prems(1) by (simp add: nth_append)
  show ?case
  proof (cases "mx < x")
    case True
    have le: "\<forall>j<i + 1. (pre @ [x]) ! j \<le> x"
    proof (intro allI impI)
      fix j assume "j < i + 1"
      then consider "j < i" | "j = i" by linarith
      then show "(pre @ [x]) ! j \<le> x"
      proof cases
        case 1
        then have "pre ! j \<le> mx" using Cons.prems(4) by blast
        with True 1 show ?thesis by (simp add: old)
      next
        case 2
        then show ?thesis by (simp add: new)
      qed
    qed
    have lt: "\<forall>j<i. (pre @ [x]) ! j < x"
    proof (intro allI impI)
      fix j assume j: "j < i"
      then have "pre ! j \<le> mx" using Cons.prems(4) by blast
      with True j show "(pre @ [x]) ! j < x" by (simp add: old)
    qed
    have "length (pre @ [x]) = i + 1" "i < i + 1"
      using Cons.prems(1) by simp_all
    from Cons.IH[OF this new le lt] True show ?thesis
      by simp
  next
    case False
    have b: "(pre @ [x]) ! best = mx"
      using Cons.prems(2,3) by (simp add: old)
    have le: "\<forall>j<i + 1. (pre @ [x]) ! j \<le> mx"
    proof (intro allI impI)
      fix j assume "j < i + 1"
      then consider "j < i" | "j = i" by linarith
      then show "(pre @ [x]) ! j \<le> mx"
      proof cases
        case 1
        then show ?thesis using Cons.prems(4) by (simp add: old)
      next
        case 2
        then show ?thesis using False by (simp add: new)
      qed
    qed
    have lt: "\<forall>j<best. (pre @ [x]) ! j < mx"
    proof (intro allI impI)
      fix j assume j: "j < best"
      then have "j < i" using Cons.prems(2) by simp
      with j show "(pre @ [x]) ! j < mx" using Cons.prems(5) by (simp add: old)
    qed
    have "length (pre @ [x]) = i + 1" "best < i + 1"
      using Cons.prems(1,2) by simp_all
    from Cons.IH[OF this b le lt] False show ?thesis
      by simp
  qed
qed

lemma np_argmax_first:
  assumes "bins \<noteq> []"
  shows "\<exists>k. np_argmax bins = Inr k \<and> k < length bins \<and>
    (\<forall>j<length bins. bins ! j \<le> bins ! k) \<and> (\<forall>j<k. bins ! j < bins ! k)"
proof -
  obtain x rest where bins: "bins = x # rest"
    using assms by (cases bins) auto
  have "argmax_loop rest 1 0 x < length ([x] @ rest) \<and>
    (\<forall>j<length ([x] @ rest). ([x] @ rest) ! j \<le> ([x] @ rest) ! argmax_loop rest 1 0 x) \<and>
    (\<forall>j<argmax_loop rest 1 0 x. ([x] @ rest) ! j < ([x] @ rest) ! argmax_loop rest 1 0 x)"
    by (rule argmax_loop_first) simp_all
  then show ?thesis
    by (simp add: bins np_argmax_def)
qed

lemma select_first:
  assumes "bins \<noteq> []" "length vals = length bins"
  shows "\<exists>k. select vals bins = Inr (vals ! k) \<and> k < length bins \<and>
    (\<forall>j<length bins. bins ! j \<le> bins ! k) \<and> (\<forall>j<k. bins ! j < bins ! k)"
proof -
  obtain k where k: "np_argmax bins = Inr k" "k < length bins"
    "\<forall>j<length bins. bins ! j \<le> bins ! k" "\<forall>j<k. bins ! j < bins ! k"
    using np_argmax_first[OF assms(1)] by blast
  have "select vals bins = Inr (vals ! k)"
    using k(1,2) assms(2) by (simp add: select_def getitem_def)
  with k show ?thesis
    by blast
qed

section \<open>The dense array\<close>

lemma zeros: "replicate 2 (0::real) = [0, 0]" "replicate 4 (0::real) = [0, 0, 0, 0]"
  by (simp_all add: numeral_nat)

lemma fill_ok:
  "\<forall>x\<in>set result. state_int x < length arr \<Longrightarrow>
   \<exists>arr'. fill arr result = Inr arr' \<and> length arr' = length arr"
proof (induction result arbitrary: arr)
  case Nil
  then show ?case by simp
next
  case (Cons x result)
  have "\<forall>y\<in>set result. state_int y < length (arr[state_int x := probability x])"
    using Cons.prems by simp
  from Cons.IH[OF this] Cons.prems show ?case
    by simp
qed

lemma fill_error:
  "\<exists>x\<in>set result. \<not> state_int x < length arr \<Longrightarrow> fill arr result = Inl IndexError"
proof (induction result arbitrary: arr)
  case Nil
  then show ?case by simp
next
  case (Cons x result)
  show ?case
  proof (cases "state_int x < length arr")
    case True
    then have "\<exists>y\<in>set result. \<not> state_int y < length (arr[state_int x := probability x])"
      using Cons.prems by auto
    from Cons.IH[OF this] True show ?thesis
      by simp
  next
    case False
    then show ?thesis by simp
  qed
qed

lemma fill_nth:
  assumes "fill arr result = Inr arr'" "s < length arr"
  shows "(s \<notin> state_int ` set result \<longrightarrow> arr' ! s = arr ! s) \<and>
    (\<forall>i<length result. state_int (result ! i) = s \<and>
        (\<forall>j. i < j \<and> j < length result \<longrightarrow> state_int (result ! j) \<noteq> s) \<longrightarrow>
        arr' ! s = probability (result ! i))"
  using assms
proof (induction result arbitrary: arr)
  case Nil
  then show ?case by simp
next
  case (Cons x result)
  define arr1 where "arr1 = arr[state_int x := probability x]"
  have inr: "state_int x < length arr" and rest: "fill arr1 result = Inr arr'"
    using Cons.prems(1) by (simp_all add: arr1_def Let_def split: if_splits)
  have s1: "s < length arr1"
    using Cons.prems(2) by (simp add: arr1_def)
  note IH = Cons.IH[OF rest s1]
  have absent: "arr' ! s = arr ! s" if "s \<notin> state_int ` set (x # result)"
  proof -
    have "arr' ! s = arr1 ! s" using IH that by simp
    also have "\<dots> = arr ! s" using that by (simp add: arr1_def)
    finally show ?thesis .
  qed
  have lastocc: "arr' ! s = probability ((x # result) ! i)"
    if i: "i < length (x # result)" and si: "state_int ((x # result) ! i) = s"
      and later: "\<forall>j. i < j \<and> j < length (x # result) \<longrightarrow> state_int ((x # result) ! j) \<noteq> s" for i
  proof (cases i)
    case 0
    have "s \<notin> state_int ` set result"
    proof
      assume "s \<in> state_int ` set result"
      then obtain j where "j < length result" "state_int (result ! j) = s"
        by (auto simp: in_set_conv_nth)
      then have "0 < Suc j \<and> Suc j < length (x # result)" "state_int ((x # result) ! Suc j) = s"
        by simp_all
      with later 0 show False by blast
    qed
    then have "arr' ! s = arr1 ! s" using IH by simp
    also have "\<dots> = probability x" using si 0 inr by (simp add: arr1_def)
    finally show ?thesis using 0 by simp
  next
    case (Suc i')
    have "i' < length result" "state_int (result ! i') = s"
      using i si Suc by simp_all
    moreover have "\<forall>j. i' < j \<and> j < length result \<longrightarrow> state_int (result ! j) \<noteq> s"
    proof (intro allI impI)
      fix j assume "i' < j \<and> j < length result"
      then have "i < Suc j \<and> Suc j < length (x # result)" using Suc by simp
      then have "state_int ((x # result) ! Suc j) \<noteq> s" using later by blast
      then show "state_int (result ! j) \<noteq> s" by simp
    qed
    ultimately have "arr' ! s = probability (result ! i')" using IH by blast
    then show ?thesis using Suc by simp
  qed
  show ?case
    using absent lastocc by blast
qed



lemma all_probs_ok:
  assumes "0 \<le> m" "\<forall>x\<in>set result. state_int x < 2 ^ nat m"
  shows "\<exists>arr. all_probs m result = Inr arr \<and> length arr = 2 ^ nat m"
proof -
  have "\<forall>x\<in>set result. state_int x < length (replicate (2 ^ nat m) (0::real))"
    using assms(2) by simp
  from fill_ok[OF this] assms(1) show ?thesis
    by (simp add: all_probs_def)
qed

lemma all_probs_error:
  assumes "0 \<le> m" "\<exists>x\<in>set result. \<not> state_int x < 2 ^ nat m"
  shows "all_probs m result = Inl IndexError"
proof -
  have "\<exists>x\<in>set result. \<not> state_int x < length (replicate (2 ^ nat m) (0::real))"
    using assms(2) by simp
  from fill_error[OF this] assms(1) show ?thesis
    by (simp add: all_probs_def)
qed

section \<open>The whole cell\<close>

lemma probs_length:
  assumes "1 \<le> m" "length arr = 2 ^ nat m" "probs m arr = Inr bins"
  shows "length bins = 2 ^ nat (m - 1) + 1"
proof -
  have "0 < (2::nat) ^ (nat m - 1)" by simp
  then have "Suc (2 ^ (nat m - 1) - 1 + 1) = 2 ^ (nat m - 1) + (1::nat)" by linarith
  then show ?thesis
    using probs_closed[OF assms(1,2)] assms(1,3) by (simp add: nat_diff_distrib)
qed

lemma pipeline:
  assumes "1 \<le> m" "\<forall>x\<in>set result. state_int x < 2 ^ nat m"
  shows "\<exists>arr vals rounded bins. all_probs m result = Inr arr \<and> length arr = 2 ^ nat m \<and>
    a_tildes m = Inr vals \<and> p_tilde m = Inr rounded \<and> probs m arr = Inr bins \<and>
    length bins = 2 ^ nat (m - 1) + 1 \<and> length vals = length bins \<and>
    length rounded = length bins \<and>
    lucky_a_tilde m result = select vals bins \<and> max_freq m result = select rounded bins"
proof -
  obtain arr where arr: "all_probs m result = Inr arr" "length arr = 2 ^ nat m"
    using all_probs_ok[of m result] assms by auto
  obtain vals where vals: "a_tildes m = Inr vals"
    using a_tildes_closed[OF assms(1)] by blast
  obtain rounded where rounded: "p_tilde m = Inr rounded"
    using p_tilde_closed[OF assms(1)] by blast
  obtain bins where bins: "probs m arr = Inr bins"
    using probs_closed[OF assms(1) arr(2)] by blast
  have "lucky_a_tilde m result = select vals bins" "max_freq m result = select rounded bins"
    by (simp_all add: lucky_a_tilde_def max_freq_def arr vals rounded bins)
  then show ?thesis
    using arr vals rounded bins a_tildes_length[OF assms(1) vals]
      p_tilde_length[OF assms(1) rounded] probs_length[OF assms(1) arr(2) bins]
    by simp
qed

text \<open>The three ways in which the cell ends in an exception.\<close>

lemma pipeline_negative:
  assumes "m < 0"
  shows "lucky_a_tilde m result = Inl TypeError \<and> max_freq m result = Inl TypeError"
  using assms by (simp add: lucky_a_tilde_def max_freq_def all_probs_def)

lemma pipeline_out_of_range:
  assumes "0 \<le> m" "\<exists>x\<in>set result. 2 ^ nat m \<le> state_int x"
  shows "lucky_a_tilde m result = Inl IndexError \<and> max_freq m result = Inl IndexError"
proof -
  have "\<exists>x\<in>set result. \<not> state_int x < 2 ^ nat m"
    using assms(2) by (simp add: not_less)
  with assms(1) have "all_probs m result = Inl IndexError"
    by (rule all_probs_error)
  then show ?thesis
    by (simp add: lucky_a_tilde_def max_freq_def)
qed

lemma pipeline_zero:
  assumes "m = 0" "\<forall>x\<in>set result. state_int x < 2 ^ nat m"
  shows "lucky_a_tilde m result = Inl TypeError \<and> max_freq m result = Inl TypeError"
proof -
  obtain arr where "all_probs m result = Inr arr"
    using all_probs_ok[of m result] assms by auto
  then show ?thesis
    using assms(1) by (simp add: lucky_a_tilde_def max_freq_def a_tildes_def p_tilde_def)
qed

section \<open>The claims\<close>

text \<open>
  C1. For every \<open>m \<ge> 1\<close> and every dense array of length \<open>2 ^ m\<close> the folding returns
  \<open>2 ^ (m - 1) + 1\<close> bins: bin \<open>0\<close> is \<open>arr[0]\<close> alone, bin \<open>k\<close> for
  \<open>1 \<le> k \<le> 2 ^ (m - 1) - 1\<close> is \<open>arr[k] + arr[2 ^ m - k]\<close> (the sum of the two floats),
  and bin \<open>2 ^ (m - 1)\<close> is \<open>arr[2 ^ (m - 1)]\<close> alone.
\<close>

theorem probs_folded_bins:
  assumes "1 \<le> m" and "length arr = 2 ^ nat m"
  shows "\<exists>bins. probs m arr = Inr bins \<and> length bins = 2 ^ nat (m - 1) + 1 \<and>
     bins ! 0 = arr ! 0 \<and>
     (\<forall>k. 1 \<le> k \<and> k \<le> 2 ^ nat (m - 1) - 1 \<longrightarrow>
          bins ! k = np_add (arr ! k) (arr ! (2 ^ nat m - k))) \<and>
     bins ! (2 ^ nat (m - 1)) = arr ! (2 ^ nat (m - 1))"
proof -
  define h :: nat where "h = 2 ^ (nat m - 1)"
  define f where "f = (\<lambda>k. np_add (arr ! k) (arr ! (2 ^ nat m - k)))"
  define bins where "bins = arr ! 0 # map f [1..<h] @ [arr ! h]"
  have h: "0 < h"
    by (simp add: h_def)
  have e: "2 ^ nat (m - 1) = h"
    using assms(1) by (simp add: h_def nat_diff_distrib)
  have p: "probs m arr = Inr bins"
    using probs_closed[OF assms] by (simp add: bins_def f_def h_def)
  have len: "length bins = h + 1"
    using h by (simp add: bins_def)
  have first: "bins ! 0 = arr ! 0"
    by (simp add: bins_def)
  have mid: "bins ! k = f k" if k1: "1 \<le> k" and k2: "k \<le> h - 1" for k
  proof -
    obtain j where k: "k = Suc j"
      using k1 by (cases k) auto
    have "j < length (map f [1..<h])"
      using k2 h k by simp
    then have "(map f [1..<h] @ [arr ! h]) ! j = map f [1..<h] ! j"
      by (simp only: nth_append if_True)
    also have "\<dots> = f k"
      using k2 h k by simp
    finally show ?thesis
      by (simp add: bins_def k)
  qed
  have last: "bins ! h = arr ! h"
  proof -
    obtain j where j: "h = Suc j"
      using h by (cases h) auto
    have "length (map f [1..<h]) = j"
      by (simp add: j)
    then have "(map f [1..<h] @ [arr ! h]) ! j = arr ! h"
      by (metis nth_append_length)
    then show ?thesis
      by (simp add: bins_def j)
  qed
  show ?thesis
    using p len first mid last unfolding e f_def by blast
qed

theorem probs_folded_bins_witness:
  "(1::int) \<le> 2 \<and> length [1/8, 1/4, 1/2, 1/8 :: real] = 2 ^ nat 2 \<and>
   probs 2 [1/8, 1/4, 1/2, 1/8] = Inr [1/8, 3/8, 1/2]"
  using probs_folded_bins[of 2 "[1/8, 1/4, 1/2, 1/8]"]
  by (simp add: probs_def getitem_def probs_loop.simps np_add_def f64_examples)

text \<open>
  C2 (amended). For every \<open>m \<ge> 1\<close> and every dense array of length \<open>2 ^ m\<close> the sum of
  the folded bins is the sum of the dense array up to the rounding of the paired bins:
  the two sums differ by at most \<open>2 ^ -53\<close> times the sum of the \<open>\<bar>arr[k] + arr[2 ^ m - k]\<bar>\<close>
  over the paired bins \<open>1 \<le> k \<le> 2 ^ (m - 1) - 1\<close>. For a dense array without negative
  entries that is at most \<open>2 ^ -53\<close> times the sum of the array, so that an array that
  sums to 1 gives bins that sum to 1 within \<open>2 ^ -53\<close>. (The sums are the exact sums of
  the floats.)
\<close>

theorem probs_mass_rounded:
  assumes "1 \<le> m" and "length arr = 2 ^ nat m"
  shows "\<exists>bins. probs m arr = Inr bins \<and>
     \<bar>sum_list bins - sum_list arr\<bar>
       \<le> (\<Sum>k = 1..<2 ^ nat (m - 1). \<bar>arr ! k + arr ! (2 ^ nat m - k)\<bar>) / 2 ^ 53 \<and>
     ((\<forall>x\<in>set arr. 0 \<le> x) \<longrightarrow>
        \<bar>sum_list bins - sum_list arr\<bar> \<le> sum_list arr / 2 ^ 53) \<and>
     ((\<forall>x\<in>set arr. 0 \<le> x) \<and> sum_list arr = 1 \<longrightarrow> \<bar>sum_list bins - 1\<bar> \<le> 1 / 2 ^ 53)"
proof -
  obtain bins where bins: "probs m arr = Inr bins"
    using probs_closed[OF assms] by blast
  have e: "nat (m - 1) = nat m - 1"
    using assms(1) by simp
  have err: "\<bar>sum_list bins - sum_list arr\<bar>
      \<le> (\<Sum>k = 1..<2 ^ nat (m - 1). \<bar>arr ! k + arr ! (2 ^ nat m - k)\<bar>) / 2 ^ 53"
    unfolding e using assms bins by (rule sum_list_probs)
  have rel: "\<bar>sum_list bins - sum_list arr\<bar> \<le> sum_list arr / 2 ^ 53"
    if nn: "\<forall>x\<in>set arr. 0 \<le> x"
  proof -
    have "(\<Sum>k = 1..<2 ^ nat (m - 1). \<bar>arr ! k + arr ! (2 ^ nat m - k)\<bar>) \<le> sum_list arr"
      unfolding e using assms nn by (rule paired_mass)
    then have "(\<Sum>k = 1..<2 ^ nat (m - 1). \<bar>arr ! k + arr ! (2 ^ nat m - k)\<bar>) / 2 ^ 53
        \<le> sum_list arr / 2 ^ 53"
      by (rule divide_right_mono) simp
    with err show ?thesis
      by linarith
  qed
  have one: "\<bar>sum_list bins - 1\<bar> \<le> 1 / 2 ^ 53"
    if nn: "\<forall>x\<in>set arr. 0 \<le> x" and s: "sum_list arr = 1"
    using rel[OF nn] s by simp
  show ?thesis
    using bins err rel one by blast
qed

theorem probs_mass_rounded_witness:
  "(1::int) \<le> 2 \<and> length [0, 1/4, 1/4, 1/2 :: real] = 2 ^ nat 2 \<and>
   (0::real) \<le> 1/4 \<and> (0::real) \<le> 1/2 \<and> sum_list [0, 1/4, 1/4, 1/2 :: real] = 1 \<and>
   probs 2 [0, 1/4, 1/4, 1/2] = Inr [0, 3/4, 1/4] \<and>
   \<bar>sum_list [0, 3/4, 1/4 :: real] - 1\<bar> \<le> 1 / 2 ^ 53"
  using probs_mass_rounded[of 2 "[0, 1/4, 1/4, 1/2]"]
  by (simp add: probs_def getitem_def probs_loop.simps np_add_def f64_examples)

text \<open>
  The sums are not equal. The dense array \<open>[0.0, 0.2, 0.1, 0.7]\<close> sums to \<open>1.0\<close> with
  Python's \<open>sum\<close>; its bin 1 is \<open>0.2 + 0.7 = 0.8999999999999999\<close>, a tie rounded down to
  the even significand, and the bins \<open>[0.0, 0.8999999999999999, 0.1]\<close> sum to
  \<open>0.9999999999999999\<close>. The exact sums differ as well.
\<close>

theorem probs_mass_counterexample:
  "probs 2 [0, f64 (1/5), f64 (1/10), f64 (7/10)]
     = Inr [0, 8106479329266892 / 2 ^ 53, f64 (1/10)] \<and>
   sum_list [0, 8106479329266892 / 2 ^ 53, f64 (1/10)]
     \<noteq> sum_list [0, f64 (1/5), f64 (1/10), f64 (7/10)] \<and>
   py_sum [0, f64 (1/5), f64 (1/10), f64 (7/10)] = 1 \<and>
   py_sum [0, 8106479329266892 / 2 ^ 53, f64 (1/10)] = 1 - 1 / 2 ^ 53"
proof -
  define a :: real where "a = 3602879701896397 / 2 ^ 54"
  define d :: real where "d = 3602879701896397 / 2 ^ 55"
  define c :: real where "c = 3152519739159347 / 2 ^ 52"
  define b :: real where "b = 8106479329266892 / 2 ^ 53"
  define t :: real where "t = 5404319552844596 / 2 ^ 54"
  have d1: "f64 (1/5) = a"
    using f64_below_one[of 2 "1/5"] by (simp add: a_def rint_def)
  have d2: "f64 (1/10) = d"
    using f64_below_one[of 3 "1/10"] by (simp add: d_def rint_def)
  have d3: "f64 (7/10) = c"
    using f64_below_one[of 0 "7/10"] by (simp add: c_def rint_def)
  have z: "np_add 0 0 = 0"
    by (simp add: np_add_def f64_0)
  have za: "np_add 0 a = a"
    using f64_dyadic[of 3602879701896397 54] by (simp add: np_add_def a_def)
  have zb: "np_add 0 b = b"
    using f64_dyadic[of 8106479329266892 53] by (simp add: np_add_def b_def)
  have ac: "np_add a c = b"
    using f64_below_one[of 0 "a + c"] by (simp add: np_add_def a_def c_def b_def rint_def)
  have ad: "np_add a d = t"
    using f64_below_one[of 1 "a + d"] by (simp add: np_add_def a_def d_def t_def rint_def)
  have tc: "np_add t c = 1"
    using f64_dyadic[of 1 0] by (simp add: np_add_def t_def c_def)
  have bd: "np_add b d = 1 - 1 / 2 ^ 53"
    using f64_below_one[of 0 "b + d"] by (simp add: np_add_def b_def d_def rint_def)
  have p: "probs 2 [0, a, d, c] = Inr [0, b, d]"
    by (simp add: probs_def getitem_def probs_loop.simps ac)
  have s: "sum_list [0, b, d] \<noteq> sum_list [0, a, d, c]"
    by (simp add: a_def b_def c_def d_def)
  have s1: "py_sum [0, a, d, c] = 1"
    by (simp add: py_sum_def z za ad tc)
  have s2: "py_sum [0, b, d] = 1 - 1 / 2 ^ 53"
    by (simp add: py_sum_def z zb bd)
  show ?thesis
    using p s s1 s2 unfolding d1 d2 d3 b_def by simp
qed




text \<open>
  C4 (amended). With \<open>c = 1/2\<close>, \<open>f_min = 0\<close> and \<open>f_max = 1\<close> the function computes
  \<open>((a - 1/2) / c + 1/2) * (f_max - f_min) + f_min\<close>, which sends the estimator value
  0.5 to 0.5, but 1.0 to 1.5 and 0.0 to -0.5. The end points 0 and 1 are mapped to
  themselves for \<open>c = 1\<close>. (This is the \<open>ExpectedFx\<close> of the housing-price notebook.)
\<close>

theorem ExpectedFx_half:
  "ExpectedFx (1/2) 0 1 (1/2) = Finite (1/2) \<and>
   ExpectedFx (1/2) 0 1 1 = Finite (3/2) \<and>
   ExpectedFx (1/2) 0 1 0 = Finite (- 1/2) \<and>
   (\<forall>a. ExpectedFx (1/2) 0 1 a = Finite (((a - 1/2) / (1/2) + 1/2) * (1 - 0) + 0)) \<and>
   ExpectedFx 1 0 1 1 = Finite 1 \<and> ExpectedFx 1 0 1 0 = Finite 0"
  by (simp add: ExpectedFx_def)

text \<open>The values the claim gives for the end points are not the ones computed.\<close>

theorem ExpectedFx_half_counterexample:
  "\<not> (ExpectedFx (1/2) 0 1 (1/2) = Finite (1/2) \<and>
      ExpectedFx (1/2) 0 1 1 = Finite 1 \<and>
      ExpectedFx (1/2) 0 1 0 = Finite 0)"
  by (simp add: ExpectedFx_def)




text \<open>
  C6 (amended). Nothing checks for a zero sum. A result whose probabilities sum to 0
  (with \<open>m \<ge> 1\<close> and states below \<open>2 ^ m\<close>) is written into the dense array and a point
  estimate is returned for it; the normalisation of a noisy run divides by the sum
  unguarded: it returns the empty list for the empty result and ends in Python's
  ZeroDivisionError otherwise.
\<close>

theorem zero_sum_not_rejected:
  assumes "prob_sum result = 0" "1 \<le> m" "\<forall>x\<in>set result. state_int x < 2 ^ nat m"
  shows "(\<exists>arr. all_probs m result = Inr arr \<and> length arr = 2 ^ nat m) \<and>
     (\<exists>v. lucky_a_tilde m result = Inr v) \<and> (\<exists>v. max_freq m result = Inr v) \<and>
     noisy_probabilities result = (if result = [] then Inr [] else Inl ZeroDivisionError)"
proof -
  obtain arr vals rounded bins where p: "all_probs m result = Inr arr" "length arr = 2 ^ nat m"
      "length bins = 2 ^ nat (m - 1) + 1" "length vals = length bins"
      "length rounded = length bins"
      "lucky_a_tilde m result = select vals bins" "max_freq m result = select rounded bins"
    using pipeline[OF assms(2,3)] by blast
  have ne: "bins \<noteq> []"
    using p(3) by auto
  have "\<exists>v. select vals bins = Inr v" "\<exists>v. select rounded bins = Inr v"
    using select_first[OF ne p(4)] select_first[OF ne p(5)] by blast+
  moreover have "noisy_probabilities result = (if result = [] then Inr [] else Inl ZeroDivisionError)"
    using assms(1) by (simp add: noisy_probabilities_def)
  ultimately show ?thesis
    using p(1,2) unfolding p(6,7) by blast
qed

theorem zero_sum_not_rejected_witness:
  "prob_sum [\<lparr>state_int = 1, probability = 0\<rparr>] = 0 \<and> (1::int) \<le> 1 \<and>
   state_int \<lparr>state_int = 1, probability = 0\<rparr> < 2 ^ nat 1 \<and>
   all_probs 1 [\<lparr>state_int = 1, probability = 0\<rparr>] = Inr [0, 0] \<and>
   lucky_a_tilde 1 [\<lparr>state_int = 1, probability = 0\<rparr>] = Inr 0 \<and>
   max_freq 1 [\<lparr>state_int = 1, probability = 0\<rparr>] = Inr 0 \<and>
   noisy_probabilities [\<lparr>state_int = 1, probability = 0\<rparr>] = Inl ZeroDivisionError"
  using zero_sum_not_rejected[of "[\<lparr>state_int = 1, probability = 0\<rparr>]" 1]
  by (simp add: prob_sum_def py_sum_def np_add_def f64_0 all_probs_def zeros lucky_a_tilde_def
      max_freq_def a_tildes_1 p_tilde_1 probs_def getitem_def probs_loop.simps select_def
      np_argmax_def noisy_probabilities_def)

text \<open>The empty result, of sum 0, is accepted everywhere without an error.\<close>

theorem zero_sum_counterexample:
  "prob_sum [] = 0 \<and> all_probs 1 [] = Inr [0, 0] \<and> lucky_a_tilde 1 [] = Inr 0 \<and>
   noisy_probabilities [] = Inr []"
  by (simp add: prob_sum_def py_sum_def all_probs_def zeros lucky_a_tilde_def a_tildes_1
      probs_def getitem_def probs_loop.simps select_def np_argmax_def noisy_probabilities_def)

text \<open>
  C7. The point estimate is the estimator value of the first bin of maximal probability:
  the selected index \<open>k\<close> has a maximal bin, every bin before it is strictly smaller,
  and every other bin tied with it has a larger estimator value (not a smaller one, for
  the rounded values of the T-bill notebook).
\<close>

theorem point_estimate_first_maximum:
  assumes "1 \<le> m" "\<forall>x\<in>set result. state_int x < 2 ^ nat m"
  shows "\<exists>arr vals rounded bins k. all_probs m result = Inr arr \<and> a_tildes m = Inr vals \<and>
     p_tilde m = Inr rounded \<and> probs m arr = Inr bins \<and> k < length bins \<and>
     (\<forall>j<length bins. bins ! j \<le> bins ! k) \<and> (\<forall>j<k. bins ! j < bins ! k) \<and>
     lucky_a_tilde m result = Inr (vals ! k) \<and> max_freq m result = Inr (rounded ! k) \<and>
     (\<forall>j<length bins. j \<noteq> k \<and> bins ! j = bins ! k \<longrightarrow>
        vals ! k < vals ! j \<and> rounded ! k \<le> rounded ! j)"
proof -
  obtain arr vals rounded bins where p: "all_probs m result = Inr arr"
      "a_tildes m = Inr vals" "p_tilde m = Inr rounded" "probs m arr = Inr bins"
      "length bins = 2 ^ nat (m - 1) + 1" "length vals = length bins"
      "length rounded = length bins"
      "lucky_a_tilde m result = select vals bins" "max_freq m result = select rounded bins"
    using pipeline[OF assms] by blast
  have ne: "bins \<noteq> []"
    using p(5) by auto
  obtain k where k: "np_argmax bins = Inr k" "k < length bins"
      "\<forall>j<length bins. bins ! j \<le> bins ! k" "\<forall>j<k. bins ! j < bins ! k"
    using np_argmax_first[OF ne] by blast
  have sel: "select vals bins = Inr (vals ! k)" "select rounded bins = Inr (rounded ! k)"
    using k(1,2) p(6,7) by (simp_all add: select_def getitem_def)
  have tie: "vals ! k < vals ! j \<and> rounded ! k \<le> rounded ! j"
    if j: "j < length bins" and jk: "j \<noteq> k" and eq: "bins ! j = bins ! k" for j
  proof -
    have "\<not> j < k"
      using k(4) eq by force
    then have "k < j"
      using jk by simp
    moreover have "j \<le> 2 ^ nat (m - 1)"
      using j p(5) by simp
    ultimately show ?thesis
      using a_tildes_strict[OF assms(1) p(2)] p_tilde_mono[OF assms(1) p(3)] by blast
  qed
  show ?thesis
    using p(1-4) k(2-4) sel tie unfolding p(8,9) by blast
qed

theorem point_estimate_first_maximum_witness:
  "(1::int) \<le> 2 \<and>
   state_int \<lparr>state_int = 1, probability = 1 / 4\<rparr> < 2 ^ nat 2 \<and>
   state_int \<lparr>state_int = 2, probability = 1 / 2\<rparr> < 2 ^ nat 2 \<and>
   state_int \<lparr>state_int = 3, probability = 1 / 4\<rparr> < 2 ^ nat 2 \<and>
   all_probs 2 [\<lparr>state_int = 1, probability = 1 / 4\<rparr>, \<lparr>state_int = 2, probability = 1 / 2\<rparr>,
                \<lparr>state_int = 3, probability = 1 / 4\<rparr>] = Inr [0, 1 / 4, 1 / 2, 1 / 4] \<and>
   probs 2 [0, 1 / 4, 1 / 2, 1 / 4] = Inr [0, 1 / 2, 1 / 2] \<and>
   lucky_a_tilde 2 [\<lparr>state_int = 1, probability = 1 / 4\<rparr>, \<lparr>state_int = 2, probability = 1 / 2\<rparr>,
                \<lparr>state_int = 3, probability = 1 / 4\<rparr>] = Inr (1 / 2) \<and>
   max_freq 2 [\<lparr>state_int = 1, probability = 1 / 4\<rparr>, \<lparr>state_int = 2, probability = 1 / 2\<rparr>,
                \<lparr>state_int = 3, probability = 1 / 4\<rparr>] = Inr (1 / 2)"
proof -
  have l: "(replicate 4 (0::real))[Suc 0 := 1 / 4, 2 := 1 / 2, 3 := 1 / 4] = [0, 1 / 4, 1 / 2, 1 / 4]"
    by (simp add: numeral_nat)
  show ?thesis
    using point_estimate_first_maximum[of 2 "[\<lparr>state_int = 1, probability = 1 / 4\<rparr>, \<lparr>state_int = 2, probability = 1 / 2\<rparr>,
                \<lparr>state_int = 3, probability = 1 / 4\<rparr>]"]
    by (simp add: lucky_a_tilde_def max_freq_def all_probs_def l a_tildes_2 p_tilde_2
        probs_def getitem_def probs_loop.simps select_def np_argmax_def np_add_def f64_examples)
qed

text \<open>
  C8 (amended). The code validates nothing itself. With \<open>m \<ge> 1\<close> and every state below
  \<open>2 ^ m\<close> a point estimate is returned, whatever the probabilities are. Otherwise the
  cell ends in an exception of Python or numpy: a TypeError for \<open>m < 0\<close> (from
  \<open>np.zeros\<close>), an IndexError for \<open>m \<ge> 0\<close> and a state that is \<open>2 ^ m\<close> or more (from the
  assignment), a TypeError for \<open>m = 0\<close> and every state below \<open>2 ^ m\<close> (from \<open>range\<close>).
  \<open>ExpectedFx\<close> raises nothing: for every \<open>c\<close> but 0, in \<open>(0, 1]\<close> or not, it returns the
  value of its formula, and for \<open>c = 0\<close> an infinity or NaN.
\<close>

theorem decoder_outcomes:
  "(m < 0 \<longrightarrow>
      lucky_a_tilde m result = Inl TypeError \<and> max_freq m result = Inl TypeError) \<and>
   (0 \<le> m \<and> (\<exists>x\<in>set result. 2 ^ nat m \<le> state_int x) \<longrightarrow>
      lucky_a_tilde m result = Inl IndexError \<and> max_freq m result = Inl IndexError) \<and>
   (m = 0 \<and> (\<forall>x\<in>set result. state_int x < 2 ^ nat m) \<longrightarrow>
      lucky_a_tilde m result = Inl TypeError \<and> max_freq m result = Inl TypeError) \<and>
   (1 \<le> m \<and> (\<forall>x\<in>set result. state_int x < 2 ^ nat m) \<longrightarrow>
      (\<exists>v. lucky_a_tilde m result = Inr v) \<and> (\<exists>v. max_freq m result = Inr v)) \<and>
   (c \<noteq> 0 \<longrightarrow>
      ExpectedFx c f_min f_max a = Finite (((a - 1 / 2) / c + 1 / 2) * (f_max - f_min) + f_min)) \<and>
   (c = 0 \<longrightarrow>
      ExpectedFx c f_min f_max a = PosInf \<or> ExpectedFx c f_min f_max a = NegInf \<or>
      ExpectedFx c f_min f_max a = NaN)"
proof -
  have ok: "(\<exists>v. lucky_a_tilde m result = Inr v) \<and> (\<exists>v. max_freq m result = Inr v)"
    if h: "1 \<le> m \<and> (\<forall>x\<in>set result. state_int x < 2 ^ nat m)"
  proof -
    obtain vals rounded bins where p:
      "length bins = 2 ^ nat (m - 1) + 1" "length vals = length bins"
      "length rounded = length bins"
      "lucky_a_tilde m result = select vals bins" "max_freq m result = select rounded bins"
      using pipeline[of m result] h by blast
    have ne: "bins \<noteq> []"
      using p(1) by auto
    show ?thesis
      using select_first[OF ne p(2)] select_first[OF ne p(3)] unfolding p(4,5) by blast
  qed
  have fin: "ExpectedFx c f_min f_max a
      = Finite (((a - 1 / 2) / c + 1 / 2) * (f_max - f_min) + f_min)" if "c \<noteq> 0"
    using that by (simp add: ExpectedFx_def)
  have inf: "ExpectedFx c f_min f_max a = PosInf \<or> ExpectedFx c f_min f_max a = NegInf \<or>
      ExpectedFx c f_min f_max a = NaN" if "c = 0"
    using that by (simp add: ExpectedFx_def)
  show ?thesis
    using pipeline_negative[of m result] pipeline_out_of_range[of m result]
      pipeline_zero[of m result] ok fin inf
    by blast
qed

theorem decoder_outcomes_witness:
  "(- 1 :: int) < 0 \<and> lucky_a_tilde (- 1) [] = Inl TypeError \<and>
   (2::nat) ^ nat 1 \<le> state_int \<lparr>state_int = 2, probability = 1 / 2\<rparr> \<and>
   lucky_a_tilde 1 [\<lparr>state_int = 2, probability = 1 / 2\<rparr>] = Inl IndexError \<and>
   (2::nat) ^ nat 0 \<le> state_int \<lparr>state_int = 1, probability = 1 / 2\<rparr> \<and>
   lucky_a_tilde 0 [\<lparr>state_int = 1, probability = 1 / 2\<rparr>] = Inl IndexError \<and>
   state_int \<lparr>state_int = 0, probability = 1\<rparr> < 2 ^ nat 0 \<and>
   lucky_a_tilde 0 [\<lparr>state_int = 0, probability = 1\<rparr>] = Inl TypeError \<and>
   (1::int) \<le> 1 \<and> state_int \<lparr>state_int = 0, probability = - 1 / 2\<rparr> < 2 ^ nat 1 \<and>
   lucky_a_tilde 1 [\<lparr>state_int = 0, probability = - 1 / 2\<rparr>] = Inr 1 \<and>
   max_freq 1 [\<lparr>state_int = 0, probability = - 1 / 2\<rparr>] = Inr 1 \<and>
   (2::real) \<noteq> 0 \<and> ExpectedFx 2 0 1 (1 / 2) = Finite (1 / 2) \<and>
   ExpectedFx 0 0 1 1 = PosInf"
  using decoder_outcomes[of "- 1" "[]" 2 0 1 "1 / 2"]
    decoder_outcomes[of 1 "[\<lparr>state_int = 2, probability = 1 / 2\<rparr>]" 0 0 1 1]
    decoder_outcomes[of 0 "[\<lparr>state_int = 1, probability = 1 / 2\<rparr>]" 0 0 1 1]
    decoder_outcomes[of 0 "[\<lparr>state_int = 0, probability = 1\<rparr>]" 0 0 1 1]
    decoder_outcomes[of 1 "[\<lparr>state_int = 0, probability = - 1 / 2\<rparr>]" 0 0 1 1]
  by (simp add: all_probs_def zeros lucky_a_tilde_def max_freq_def a_tildes_1 p_tilde_1
      probs_def getitem_def probs_loop.simps select_def np_argmax_def ExpectedFx_def)

text \<open>
  A negative probability, a dense array that is too long and \<open>c = 2\<close> are all accepted.
\<close>

theorem no_validation_counterexample:
  "all_probs 1 [\<lparr>state_int = 0, probability = - 1 / 2\<rparr>] = Inr [- 1 / 2, 0] \<and>
   lucky_a_tilde 1 [\<lparr>state_int = 0, probability = - 1 / 2\<rparr>] = Inr 1 \<and>
   probs 1 [1 / 2, 1 / 4, 1 / 4, 0] = Inr [1 / 2, 1 / 4] \<and>
   ExpectedFx 2 0 1 (1 / 2) = Finite (1 / 2)"
  by (simp add: all_probs_def zeros lucky_a_tilde_def a_tildes_1
      probs_def getitem_def probs_loop.simps select_def np_argmax_def ExpectedFx_def)

text \<open>
  C9. For every \<open>m \<ge> 1\<close> and every \<open>k\<close> from 0 to \<open>2 ^ (m - 1)\<close> the estimator value
  lies in \<open>[0, 1]\<close>, rounded or not.
\<close>

theorem estimator_values_range:
  assumes "1 \<le> m"
  shows "\<exists>vals rounded. a_tildes m = Inr vals \<and> p_tilde m = Inr rounded \<and>
     (\<forall>k. k \<le> 2 ^ nat (m - 1) \<longrightarrow> 0 \<le> vals ! k \<and> vals ! k \<le> 1) \<and>
     (\<forall>k. k \<le> 2 ^ nat (m - 1) \<longrightarrow> 0 \<le> rounded ! k \<and> rounded ! k \<le> 1)"
proof -
  obtain vals where vals: "a_tildes m = Inr vals"
    using a_tildes_closed[OF assms] by blast
  obtain rounded where rounded: "p_tilde m = Inr rounded"
    using p_tilde_closed[OF assms] by blast
  show ?thesis
    using vals rounded a_tildes_range[OF assms vals] p_tilde_range[OF assms rounded]
    by blast
qed

theorem estimator_values_range_witness: "(1::int) \<le> 1 \<and> a_tildes 1 = Inr [0, 1] \<and> p_tilde 1 = Inr [0, 1]"
  using estimator_values_range[of 1] by (simp add: a_tildes_1 p_tilde_1)

text \<open>
  C10. The dense array holds, for a state that occurs in the result, the probability of
  its last occurrence (earlier ones are overwritten, not added), and 0 for a state that
  does not occur.
\<close>

theorem all_probs_last_write:
  assumes "0 \<le> m" "\<forall>x\<in>set result. state_int x < 2 ^ nat m"
  shows "\<exists>arr. all_probs m result = Inr arr \<and> length arr = 2 ^ nat m \<and>
     (\<forall>i<length result.
        (\<forall>j. i < j \<and> j < length result \<longrightarrow> state_int (result ! j) \<noteq> state_int (result ! i)) \<longrightarrow>
        arr ! state_int (result ! i) = probability (result ! i)) \<and>
     (\<forall>s<2 ^ nat m. s \<notin> state_int ` set result \<longrightarrow> arr ! s = 0)"
proof -
  obtain arr where arr: "all_probs m result = Inr arr" "length arr = 2 ^ nat m"
    using all_probs_ok[OF assms] by blast
  have f: "fill (replicate (2 ^ nat m) 0) result = Inr arr"
    using arr(1) assms(1) by (simp add: all_probs_def)
  have lastocc: "arr ! state_int (result ! i) = probability (result ! i)"
    if i: "i < length result"
      and later: "\<forall>j. i < j \<and> j < length result \<longrightarrow> state_int (result ! j) \<noteq> state_int (result ! i)"
    for i
  proof -
    have "state_int (result ! i) < length (replicate (2 ^ nat m) (0::real))"
      using assms(2) i by simp
    from fill_nth[OF f this] i later show ?thesis
      by blast
  qed
  have absent: "arr ! s = 0" if s: "s < 2 ^ nat m" and no: "s \<notin> state_int ` set result" for s
  proof -
    have "s < length (replicate (2 ^ nat m) (0::real))"
      using s by simp
    from fill_nth[OF f this] no have "arr ! s = replicate (2 ^ nat m) (0::real) ! s"
      by blast
    then show ?thesis
      using s by simp
  qed
  show ?thesis
    using arr lastocc absent by blast
qed

theorem all_probs_last_write_witness:
  "(0::int) \<le> 2 \<and> state_int \<lparr>state_int = 1, probability = 1 / 4\<rparr> < 2 ^ nat 2 \<and>
   state_int \<lparr>state_int = 1, probability = 1 / 2\<rparr> < 2 ^ nat 2 \<and>
   all_probs 2 [\<lparr>state_int = 1, probability = 1 / 4\<rparr>, \<lparr>state_int = 1, probability = 1 / 2\<rparr>]
     = Inr [0, 1 / 2, 0, 0]"
  using all_probs_last_write[of 2 "[\<lparr>state_int = 1, probability = 1 / 4\<rparr>, \<lparr>state_int = 1, probability = 1 / 2\<rparr>]"]
  by (simp add: all_probs_def zeros)

end
